theory Spec2Isabelle
  imports Complex_Main "HOL-Library.Word"
begin

section \<open>Text, paths and the compiled pattern\<close>

text \<open>
  A Python \<open>str\<close> is modelled as a \<open>string\<close>: one \<open>char\<close> stands for one
  character of the decoded text, so that \<open>length\<close>, \<open>take\<close> and \<open>drop\<close> are
  Python's \<open>len\<close> and slicing. A \<open>Path\<close> is the string that \<open>str(path)\<close> gives.

  The compiled regular expression comes from Python's \<open>re\<close> module, which is not part
  of the repository. The program only ever calls \<open>rx.search(line)\<close> and, on a match,
  \<open>m.span()\<close>; a compiled pattern is therefore the function from a line to the span of
  its first match, \<open>None\<close> when \<open>search\<close> returns \<open>None\<close>. Of a span \<open>(a, b)\<close> on a
  line, \<open>re\<close> guarantees \<open>0 \<le> a \<le> b \<le> len(line)\<close>.
\<close>

type_synonym path = string
type_synonym byte = "8 word"
type_synonym pattern = "string \<Rightarrow> (nat \<times> nat) option"

definition LF :: char where
  "LF = CHR 0x0A"

definition CR :: char where
  "CR = CHR 0x0D"

definition ESC :: char where
  "ESC = CHR 0x1B"

text \<open>
  A pattern without metacharacters, such as \<open>error\<close>, is searched for as a literal:
  \<open>search\<close> returns the leftmost occurrence. \<open>literal_search\<close> is that instance of
  \<open>pattern\<close>; it serves where a concrete pattern is needed.
\<close>

fun find_sub :: "string \<Rightarrow> string \<Rightarrow> nat \<Rightarrow> nat option" where
  "find_sub lit [] i = (if lit = [] then Some i else None)"
| "find_sub lit (c # cs) i =
     (if take (length lit) (c # cs) = lit then Some i else find_sub lit cs (Suc i))"

definition literal_search :: "string \<Rightarrow> pattern" where
  "literal_search lit line =
     (case find_sub lit line 0 of None \<Rightarrow> None | Some i \<Rightarrow> Some (i, i + length lit))"

text \<open>\<open>str(n)\<close> of a non-negative integer: its decimal digits.\<close>

definition digit_char :: "nat \<Rightarrow> char" where
  "digit_char d = ''0123456789'' ! d"

fun str_nat :: "nat \<Rightarrow> string" where
  "str_nat n = (if n < 10 then [digit_char n] else str_nat (n div 10) @ [digit_char (n mod 10)])"

declare str_nat.simps [simp del]

text \<open>\<open>s.rstrip("\n")\<close>: every trailing line feed is removed, nothing else.\<close>

definition rstrip_nl :: "string \<Rightarrow> string" where
  "rstrip_nl s = rev (dropWhile (\<lambda>c. c = LF) (rev s))"

section \<open>Color helpers\<close>

definition ANSI_RESET :: string where
  "ANSI_RESET = ESC # ''[0m''"

definition ANSI_DIM :: string where
  "ANSI_DIM = ESC # ''[2m''"

definition ANSI_RED :: string where
  "ANSI_RED = ESC # ''[31m''"

definition ANSI_YELLOW :: string where
  "ANSI_YELLOW = ESC # ''[33m''"

definition ANSI_CYAN :: string where
  "ANSI_CYAN = ESC # ''[36m''"

definition colorize :: "string \<Rightarrow> string \<Rightarrow> bool \<Rightarrow> string" where
  "colorize s color enabled = (if enabled then color @ s @ ANSI_RESET else s)"

text \<open>
  \<open>line[:a] + ANSI_YELLOW + line[a:b] + ANSI_RESET + line[b:]\<close>, with Python's slices
  for non-negative bounds: \<open>line[:a]\<close> is \<open>take a\<close>, \<open>line[b:]\<close> is \<open>drop b\<close> and
  \<open>line[a:b]\<close> is \<open>drop a (take b line)\<close> (empty when \<open>b \<le> a\<close>).
\<close>

definition highlight_regex_first :: "string \<Rightarrow> pattern \<Rightarrow> bool \<Rightarrow> string" where
  "highlight_regex_first line rx enabled =
     (if \<not> enabled then line
      else case rx line of
        None \<Rightarrow> line
      | Some (a, b) \<Rightarrow>
          take a line @ ANSI_YELLOW @ drop a (take b line) @ ANSI_RESET @ drop b line)"

section \<open>Stats\<close>

record Stats =
  files_seen :: int
  files_read :: int
  files_skipped_binary :: int
  lines_seen :: int
  lines_reported :: int
  elapsed_s :: real

definition Stats0 :: Stats where
  "Stats0 = \<lparr>files_seen = 0, files_read = 0, files_skipped_binary = 0,
             lines_seen = 0, lines_reported = 0, elapsed_s = 0\<rparr>"

section \<open>Files, standard streams and the log\<close>

text \<open>
  Every \<open>OSError\<close> the program can meet is a value. A file answers two opens:
  \<^item> \<open>bin_read\<close>: \<open>open("rb")\<close> followed by \<open>read\<close>, giving the bytes of the file, or
    the error that the open or the read raises;
  \<^item> \<open>text_read\<close>: \<open>open("r", encoding="utf-8", errors="replace")\<close>, giving the error
    of the open, or the text that iterating the handle delivers. Decoding with
    \<open>errors="replace"\<close> never raises, so the text is a string; a read may still raise
    part-way, after the lines of \<open>decoded\<close> were delivered (\<open>failure\<close>).
  The two are independent: a file may change between the classifier's open and the
  scanner's.
\<close>

datatype oserror = OSError string

datatype text_stream = Stream (decoded: string) (failure: "oserror option")

record file_node =
  bin_read :: "oserror + byte list"
  text_read :: "oserror + text_stream"

type_synonym filesystem = "path \<Rightarrow> file_node"

datatype fs_event = MkLogDir path | OpenLog path | OpenBinary path | OpenText path

datatype level = DEBUG | INFO | WARNING | ERROR

fun level_no :: "level \<Rightarrow> nat" where
  "level_no DEBUG = 10"
| "level_no INFO = 20"
| "level_no WARNING = 30"
| "level_no ERROR = 40"

text \<open>
  The records the program logs, one constructor per format string of the source; the
  formatter's time stamp is left out.
\<close>

datatype color_choice = Auto | Always | Never

datatype log_event =
    LogStarted path
  | LogCwd path
  | LogArgs string
  | LogOptions bool bool bool bool color_choice bool
  | InvalidRegex string
  | PathNotFound path
  | SkippingBinary path
  | CannotRead path string
  | Performance Stats
  | Interrupted

datatype err_item = Printed string | Console level log_event

record io =
  out :: "string list"
  err :: "err_item list"
  logged :: "(level \<times> log_event) list"
  trace :: "fs_event list"

definition io0 :: io where
  "io0 = \<lparr>out = [], err = [], logged = [], trace = []\<rparr>"

record logger =
  logger_level :: level

text \<open>
  \<open>logger.debug/info/warning/error\<close>: a record below the logger's level is dropped;
  the file handler (same level as the logger) writes the others to the log file, and the
  console handler echoes those of level \<open>WARNING\<close> and above on standard error.
\<close>

definition log_record :: "logger \<Rightarrow> level \<Rightarrow> log_event \<Rightarrow> io \<Rightarrow> io" where
  "log_record lg lv ev w =
     (if level_no lv < level_no (logger_level lg) then w
      else w\<lparr>logged := logged w @ [(lv, ev)],
              err := (if 30 \<le> level_no lv then err w @ [Console lv ev] else err w)\<rparr>)"

section \<open>File iteration and heuristics\<close>

definition is_probably_text_file :: "filesystem \<Rightarrow> path \<Rightarrow> nat \<Rightarrow> bool" where
  "is_probably_text_file fs p sample_size =
     (case bin_read (fs p) of
        Inl e \<Rightarrow> False
      | Inr bs \<Rightarrow> (0 :: byte) \<notin> set (take sample_size bs))"

text \<open>
  A handle opened in text mode with the default \<open>newline=None\<close> translates the line
  endings \<open>\r\n\<close> and \<open>\r\<close> to \<open>\n\<close> before the program sees the text
  (\<open>translate_newlines\<close>), and iterating it yields the text cut after every \<open>\n\<close>, each
  line with its \<open>\n\<close>, the last one without when the text does not end in one
  (\<open>iter_lines\<close>).
\<close>

fun translate_newlines :: "string \<Rightarrow> string" where
  "translate_newlines [] = []"
| "translate_newlines [c] = (if c = CR then [LF] else [c])"
| "translate_newlines (c # d # cs) =
     (if c = CR \<and> d = LF then LF # translate_newlines cs
      else if c = CR then LF # translate_newlines (d # cs)
      else c # translate_newlines (d # cs))"

fun iter_lines_from :: "string \<Rightarrow> string \<Rightarrow> string list" where
  "iter_lines_from acc [] = (if acc = [] then [] else [acc])"
| "iter_lines_from acc (c # cs) =
     (if c = LF then (acc @ [LF]) # iter_lines_from [] cs else iter_lines_from (acc @ [c]) cs)"

definition iter_lines :: "string \<Rightarrow> string list" where
  "iter_lines s = iter_lines_from [] s"

definition text_lines :: "string \<Rightarrow> string list" where
  "text_lines content = iter_lines (translate_newlines content)"

section \<open>Grep core\<close>

text \<open>
  The \<open>for lineno, raw in enumerate(f, start=1)\<close> loop of \<open>grep_file\<close>, over the lines
  still to come; it carries \<open>match_count\<close>, the statistics and standard output.
\<close>

fun scan_lines ::
  "path \<Rightarrow> pattern \<Rightarrow> bool \<Rightarrow> bool \<Rightarrow> bool \<Rightarrow> nat \<Rightarrow> string list \<Rightarrow> nat \<Rightarrow> Stats \<Rightarrow> string list
     \<Rightarrow> nat \<times> Stats \<times> string list" where
  "scan_lines fp rx invert count_only color_enabled lineno [] match_count st so =
     (match_count, st, so)"
| "scan_lines fp rx invert count_only color_enabled lineno (raw # rest) match_count st so =
     (let st1 = st\<lparr>lines_seen := lines_seen st + 1\<rparr>;
          line = rstrip_nl raw;
          matched = (rx line \<noteq> None);
          ok = (if invert then \<not> matched else matched)
      in if ok then
           (if count_only then
              scan_lines fp rx invert count_only color_enabled (Suc lineno) rest
                (match_count + 1) st1 so
            else
              (let shown = (if color_enabled \<and> \<not> invert
                            then highlight_regex_first line rx True else line);
                   prefix = colorize (fp @ '':'' @ str_nat lineno @ '':'') ANSI_DIM color_enabled
               in scan_lines fp rx invert count_only color_enabled (Suc lineno) rest
                    match_count (st1\<lparr>lines_reported := lines_reported st1 + 1\<rparr>)
                    (so @ [prefix @ shown])))
         else
           scan_lines fp rx invert count_only color_enabled (Suc lineno) rest
             match_count st1 so)"

text \<open>
  The body of the \<open>try\<close> block of \<open>grep_file\<close>. It returns the \<open>OSError\<close> in
  flight when it leaves the block by one, together with the statistics and the output as
  they are at that point (both are mutated in place, so what was counted or printed
  before the error stays).
\<close>

definition grep_try ::
  "path \<Rightarrow> pattern \<Rightarrow> bool \<Rightarrow> bool \<Rightarrow> bool \<Rightarrow> filesystem \<Rightarrow> Stats \<Rightarrow> io
     \<Rightarrow> oserror option \<times> Stats \<times> io" where
  "grep_try filepath rx invert count_only color_enabled fs st w =
     (let w1 = w\<lparr>trace := trace w @ [OpenText filepath]\<rparr>
      in case text_read (fs filepath) of
           Inl e \<Rightarrow> (Some e, st, w1)
         | Inr (Stream content fl) \<Rightarrow>
             (let st1 = st\<lparr>files_read := files_read st + 1\<rparr>;
                  r = scan_lines filepath rx invert count_only color_enabled 1
                        (text_lines content) 0 st1 (out w1);
                  match_count = fst r;
                  st2 = fst (snd r);
                  w2 = w1\<lparr>out := snd (snd r)\<rparr>
              in case fl of
                   Some e \<Rightarrow> (Some e, st2, w2)
                 | None \<Rightarrow>
                     if count_only then
                       (None, st2\<lparr>lines_reported := lines_reported st2 + 1\<rparr>,
                        w2\<lparr>out := out w2 @
                               [colorize (filepath @ '':'') ANSI_DIM color_enabled
                                  @ str_nat match_count]\<rparr>)
                     else (None, st2, w2)))"

definition grep_file ::
  "path \<Rightarrow> pattern \<Rightarrow> bool \<Rightarrow> bool \<Rightarrow> bool \<Rightarrow> logger \<Rightarrow> filesystem \<Rightarrow> Stats \<times> io \<Rightarrow> Stats \<times> io" where
  "grep_file filepath rx invert count_only color_enabled lg fs s =
     (let st0 = (fst s)\<lparr>files_seen := files_seen (fst s) + 1\<rparr>;
          w0 = (snd s)\<lparr>trace := trace (snd s) @ [OpenBinary filepath]\<rparr>
      in if \<not> is_probably_text_file fs filepath 4096 then
           (st0\<lparr>files_skipped_binary := files_skipped_binary st0 + 1\<rparr>,
            log_record lg DEBUG (SkippingBinary filepath) w0)
         else
           (case grep_try filepath rx invert count_only color_enabled fs st0 w0 of
              (None, st, w) \<Rightarrow> (st, w)
            | (Some (OSError msg), st, w) \<Rightarrow>
                (st, log_record lg ERROR (CannotRead filepath msg) w)))"

text \<open>The loop of \<open>main\<close> over the files that \<open>iter_files\<close> yields.\<close>

fun grep_files ::
  "path list \<Rightarrow> pattern \<Rightarrow> bool \<Rightarrow> bool \<Rightarrow> bool \<Rightarrow> logger \<Rightarrow> filesystem \<Rightarrow> Stats \<times> io \<Rightarrow> Stats \<times> io" where
  "grep_files [] rx invert count_only color_enabled lg fs s = s"
| "grep_files (fp # fps) rx invert count_only color_enabled lg fs s =
     grep_files fps rx invert count_only color_enabled lg fs
       (grep_file fp rx invert count_only color_enabled lg fs s)"

section \<open>The earlier variant: \<open>process_file\<close> of \<open>phase3.py\<close>\<close>

text \<open>
  \<open>process_file\<close> prints plain lines, keeps no statistics and reports a failure with
  \<open>eprint\<close>; its \<open>except\<close> clause returns, so no count is printed for a file that
  could not be read to its end.
\<close>

fun process_lines ::
  "pattern \<Rightarrow> path \<Rightarrow> bool \<Rightarrow> bool \<Rightarrow> nat \<Rightarrow> string list \<Rightarrow> nat \<Rightarrow> string list
     \<Rightarrow> nat \<times> string list" where
  "process_lines rx filepath invert do_count lineno [] count so = (count, so)"
| "process_lines rx filepath invert do_count lineno (line # rest) count so =
     (let text = rstrip_nl line;
          matched = (rx text \<noteq> None);
          ok = (if invert then \<not> matched else matched)
      in if ok then
           (if do_count then
              process_lines rx filepath invert do_count (Suc lineno) rest (count + 1) so
            else
              process_lines rx filepath invert do_count (Suc lineno) rest count
                (so @ [filepath @ '':'' @ str_nat lineno @ '':'' @ text]))
         else process_lines rx filepath invert do_count (Suc lineno) rest count so)"

definition process_file :: "pattern \<Rightarrow> path \<Rightarrow> bool \<Rightarrow> bool \<Rightarrow> filesystem \<Rightarrow> io \<Rightarrow> io" where
  "process_file rx filepath invert do_count fs w =
     (let w1 = w\<lparr>trace := trace w @ [OpenText filepath]\<rparr>
      in case text_read (fs filepath) of
           Inl (OSError msg) \<Rightarrow>
             w1\<lparr>err := err w1 @ [Printed (''Cannot read '' @ [CHR 0x27] @ filepath @ [CHR 0x27]
                                            @ '': '' @ msg)]\<rparr>
         | Inr (Stream content fl) \<Rightarrow>
             (let r = process_lines rx filepath invert do_count 1 (text_lines content) 0 (out w1);
                  w2 = w1\<lparr>out := snd r\<rparr>
              in case fl of
                   Some (OSError msg) \<Rightarrow>
                     w2\<lparr>err := err w2 @ [Printed (''Cannot read '' @ [CHR 0x27] @ filepath
                                                    @ [CHR 0x27] @ '': '' @ msg)]\<rparr>
                 | None \<Rightarrow>
                     if do_count then w2\<lparr>out := out w2 @ [filepath @ '':'' @ str_nat (fst r)]\<rparr>
                     else w2))"

section \<open>Command line and \<open>main\<close>\<close>

text \<open>
  \<open>args\<close> is what \<open>parse_args\<close> returns. \<open>env\<close> is what the run reads from outside the
  program: whether the \<open>logs\<close> directory and the log file can be created, the working
  directory, the time stamp of the log's name, the command line, whether standard output
  is a terminal, \<open>re.compile\<close> (the message of \<open>re.error\<close>, or the compiled pattern; the
  flag is \<open>re.IGNORECASE\<close>), the queries of \<open>pathlib\<close>, the files, and the time the run
  took. An interrupt from the keyboard is not part of the model.
\<close>

record args =
  regex :: string
  inputs :: "path list"
  recursive :: bool
  ignore_case :: bool
  invert :: bool
  count :: bool
  color :: color_choice
  debug :: bool

record env =
  logs_mkdir :: "oserror option"
  log_open :: "oserror option"
  cwd :: path
  now_ts :: string
  argv :: "string list"
  stdout_isatty :: bool
  re_compile :: "string \<Rightarrow> bool \<Rightarrow> string + pattern"
  path_exists :: "path \<Rightarrow> bool"
  is_file :: "path \<Rightarrow> bool"
  is_dir :: "path \<Rightarrow> bool"
  rglob :: "path \<Rightarrow> path list"
  glob :: "path \<Rightarrow> path list"
  files :: filesystem
  elapsed :: real

datatype outcome = Exit int | Uncaught oserror

fun join_space :: "string list \<Rightarrow> string" where
  "join_space [] = []"
| "join_space [x] = x"
| "join_space (x # y # ys) = x @ '' '' @ join_space (y # ys)"

definition iter_files :: "env \<Rightarrow> path list \<Rightarrow> bool \<Rightarrow> path list" where
  "iter_files e ps rec =
     concat (map (\<lambda>p. if is_file e p then [p]
                       else if is_dir e p then
                         (if rec then filter (is_file e) (rglob e p)
                          else filter (is_file e) (glob e p))
                       else []) ps)"

definition make_log_path :: "env \<Rightarrow> io \<Rightarrow> (oserror + path) \<times> io" where
  "make_log_path e w =
     (let logs_dir = cwd e @ ''/logs'';
          w1 = w\<lparr>trace := trace w @ [MkLogDir logs_dir]\<rparr>
      in case logs_mkdir e of
           Some ex \<Rightarrow> (Inl ex, w1)
         | None \<Rightarrow> (Inr (logs_dir @ ''/log_'' @ now_ts e @ ''.txt''), w1))"

definition setup_logging :: "bool \<Rightarrow> env \<Rightarrow> io \<Rightarrow> (oserror + logger \<times> path) \<times> io" where
  "setup_logging dbg e w =
     (case make_log_path e w of
        (Inl ex, w1) \<Rightarrow> (Inl ex, w1)
      | (Inr log_path, w1) \<Rightarrow>
          (let w2 = w1\<lparr>trace := trace w1 @ [OpenLog log_path]\<rparr>
           in case log_open e of
                Some ex \<Rightarrow> (Inl ex, w2)
              | None \<Rightarrow>
                  (let lg = \<lparr>logger_level = (if dbg then DEBUG else INFO)\<rparr>
                   in (Inr (lg, log_path),
                       log_record lg INFO (LogCwd (cwd e))
                         (log_record lg INFO (LogStarted log_path) w2)))))"

definition eprint :: "string \<Rightarrow> io \<Rightarrow> io" where
  "eprint msg w = w\<lparr>err := err w @ [Printed msg]\<rparr>"

fun log_missing :: "logger \<Rightarrow> path list \<Rightarrow> io \<Rightarrow> io" where
  "log_missing lg [] w = w"
| "log_missing lg (m # ms) w = log_missing lg ms (log_record lg ERROR (PathNotFound m) w)"

text \<open>The \<open>try\<close> block of \<open>main\<close>: the exit code it returns, the statistics, the streams.\<close>

definition main_try :: "env \<Rightarrow> args \<Rightarrow> logger \<Rightarrow> bool \<Rightarrow> io \<Rightarrow> int \<times> Stats \<times> io" where
  "main_try e a lg color_enabled w =
     (case re_compile e (regex a) (ignore_case a) of
        Inl ex \<Rightarrow>
          (2, Stats0,
           eprint (colorize (''Invalid regex: '' @ ex) ANSI_RED color_enabled)
             (log_record lg ERROR (InvalidRegex ex) w))
      | Inr rx \<Rightarrow>
          (let missing = filter (\<lambda>p. \<not> path_exists e p) (inputs a)
           in if missing \<noteq> [] then
                (2, Stats0,
                 eprint (colorize (''Error: '' @ str_nat (length missing)
                                     @ '' input path(s) not found.'') ANSI_RED color_enabled)
                   (log_missing lg missing w))
              else
                (let s = grep_files (iter_files e (inputs a) (recursive a)) rx (invert a)
                           (count a) color_enabled lg (files e) (Stats0, w)
                 in (0, fst s, snd s))))"

definition main :: "env \<Rightarrow> args \<Rightarrow> outcome \<times> Stats \<times> io" where
  "main e a =
     (case setup_logging (debug a) e io0 of
        (Inl ex, w) \<Rightarrow> (Uncaught ex, Stats0, w)
      | (Inr (lg, log_path), w) \<Rightarrow>
          (let color_enabled = (case color a of Always \<Rightarrow> True | Never \<Rightarrow> False
                                | Auto \<Rightarrow> stdout_isatty e);
               w1 = log_record lg INFO (LogArgs (join_space (argv e))) w;
               w2 = log_record lg INFO
                      (LogOptions (recursive a) (ignore_case a) (invert a) (count a)
                         (color a) (debug a)) w1;
               r = main_try e a lg color_enabled w2;
               st = (fst (snd r))\<lparr>elapsed_s := elapsed e\<rparr>;
               w3 = log_record lg INFO (Performance st) (snd (snd r));
               w4 = eprint (colorize (''Log written to: '' @ log_path) ANSI_CYAN color_enabled) w3
           in (Exit (fst r), st, w4)))"

section \<open>Notions the properties are stated with\<close>

text \<open>
  The lines a scan reports, each with its number: those of the physical lines \<open>raws\<close>,
  numbered from \<open>n\<close>, whose text without the trailing line feeds passes the test of the
  policy.
\<close>

fun reported_lines :: "pattern \<Rightarrow> bool \<Rightarrow> nat \<Rightarrow> string list \<Rightarrow> (nat \<times> string) list" where
  "reported_lines rx iv n [] = []"
| "reported_lines rx iv n (raw # rest) =
     (if (rx (rstrip_nl raw) \<noteq> None) \<noteq> iv then [(n, rstrip_nl raw)] else [])
       @ reported_lines rx iv (Suc n) rest"

text \<open>The output line \<open>path:lineno:content\<close> of a reported line, as \<open>grep_file\<close> prints it.\<close>

definition render_line :: "path \<Rightarrow> pattern \<Rightarrow> bool \<Rightarrow> bool \<Rightarrow> nat \<times> string \<Rightarrow> string" where
  "render_line fp rx iv color_enabled nl =
     colorize (fp @ '':'' @ str_nat (fst nl) @ '':'') ANSI_DIM color_enabled
       @ (if color_enabled \<and> \<not> iv then highlight_regex_first (snd nl) rx True else snd nl)"

text \<open>The output line \<open>path:count\<close>.\<close>

definition render_count :: "path \<Rightarrow> bool \<Rightarrow> nat \<Rightarrow> string" where
  "render_count fp color_enabled k = colorize (fp @ '':'') ANSI_DIM color_enabled @ str_nat k"

text \<open>A file is read to its end: it opens in text mode and no read fails.\<close>

definition read_to_end :: "filesystem \<Rightarrow> path \<Rightarrow> bool" where
  "read_to_end fs fp =
     (case text_read (fs fp) of Inl e \<Rightarrow> False | Inr ts \<Rightarrow> failure ts = None)"

text \<open>A file is read through: it passes the classifier and is read to its end.\<close>

definition read_through :: "filesystem \<Rightarrow> path \<Rightarrow> bool" where
  "read_through fs fp = (is_probably_text_file fs fp 4096 \<and> read_to_end fs fp)"

text \<open>The physical lines of a file that opens in text mode (none when it does not).\<close>

definition lines_of :: "filesystem \<Rightarrow> path \<Rightarrow> string list" where
  "lines_of fs fp = (case text_read (fs fp) of Inl e \<Rightarrow> [] | Inr ts \<Rightarrow> text_lines (decoded ts))"

text \<open>A file passes the classifier and then cannot be opened for reading.\<close>

definition open_fails :: "filesystem \<Rightarrow> path \<Rightarrow> bool" where
  "open_fails fs fp = (is_probably_text_file fs fp 4096 \<and> isl (text_read (fs fp)))"

text \<open>A file passes the classifier and opens for reading (a later read may still fail).\<close>

definition opens :: "filesystem \<Rightarrow> path \<Rightarrow> bool" where
  "opens fs fp = (is_probably_text_file fs fp 4096 \<and> \<not> isl (text_read (fs fp)))"

text \<open>The number of per-file I/O errors of a run: the \<open>Cannot read\<close> records of its log.\<close>

fun is_cannot_read :: "level \<times> log_event \<Rightarrow> bool" where
  "is_cannot_read (lv, CannotRead p m) = True"
| "is_cannot_read (lv, ev) = False"

definition io_errors :: "io \<Rightarrow> nat" where
  "io_errors w = length (filter is_cannot_read (logged w))"

section \<open>Sample files\<close>

text \<open>
  A small file system on which the properties below are run: the text
  \<open>ok\nerror: boom\nok\n\<close>, a file that starts with a NUL byte, a file whose read
  permission goes away after the classifier saw it, a file whose read fails after the
  first line, and a file with a CRLF line ending.
\<close>

definition sample_text :: string where
  "sample_text = ''ok'' @ [LF] @ ''error: boom'' @ [LF] @ ''ok'' @ [LF]"

definition file_ok :: file_node where
  "file_ok = \<lparr>bin_read = Inr (map of_char sample_text),
              text_read = Inr (Stream sample_text None)\<rparr>"

definition file_binary :: file_node where
  "file_binary = \<lparr>bin_read = Inr [0, 1, 2],
                  text_read = Inr (Stream [CHR 0x00, CHR 0x01, CHR 0x02] None)\<rparr>"

definition file_revoked :: file_node where
  "file_revoked = \<lparr>bin_read = Inr (map of_char sample_text),
                   text_read = Inl (OSError ''Permission denied'')\<rparr>"

definition file_failing :: file_node where
  "file_failing = \<lparr>bin_read = Inr (map of_char sample_text),
                   text_read = Inr (Stream (''ok'' @ [LF]) (Some (OSError ''Input/output error'')))\<rparr>"

definition file_crlf :: file_node where
  "file_crlf = \<lparr>bin_read = Inr (map of_char (''ab'' @ [CR, LF])),
                text_read = Inr (Stream (''ab'' @ [CR, LF]) None)\<rparr>"

definition sample_fs :: filesystem where
  "sample_fs p =
     (if p = ''a.txt'' then file_ok
      else if p = ''b.bin'' then file_binary
      else if p = ''c.txt'' then file_revoked
      else if p = ''d.txt'' then file_failing
      else file_crlf)"

definition sample_logger :: logger where
  "sample_logger = \<lparr>logger_level = INFO\<rparr>"

text \<open>
  A run whose pattern \<open>(\<close> does not compile, over one file that exists and one that does
  not; every other pattern is searched for as a literal.
\<close>

definition sample_env :: env where
  "sample_env =
     \<lparr>logs_mkdir = None, log_open = None, cwd = ''/w'', now_ts = ''2025-01-01_00-00-00'',
      argv = [''grep.py'', ''('', ''a.txt'', ''missing.txt''], stdout_isatty = False,
      re_compile = (\<lambda>p ic. if p = ''(''
                              then Inl ''missing ), unterminated subpattern at position 0''
                              else Inr (literal_search p)),
      path_exists = (\<lambda>p. p \<in> set [''a.txt'', ''b.bin'', ''c.txt'', ''d.txt'', ''e.txt'']),
      is_file = (\<lambda>p. p \<in> set [''a.txt'', ''b.bin'', ''c.txt'', ''d.txt'', ''e.txt'']),
      is_dir = (\<lambda>p. False), rglob = (\<lambda>p. []), glob = (\<lambda>p. []),
      files = sample_fs, elapsed = 0\<rparr>"

definition sample_args :: args where
  "sample_args =
     \<lparr>regex = ''('', inputs = [''a.txt'', ''missing.txt''], recursive = False,
      ignore_case = False, invert = False, count = False, color = Never, debug = False\<rparr>"

section \<open>The scanning loop and the three ways a file is handled\<close>

lemma scan_lines_result:
  "scan_lines fp rx iv co ce n raws mc st so =
     (if co then mc + length (reported_lines rx iv n raws) else mc,
      st\<lparr>lines_seen := lines_seen st + int (length raws),
         lines_reported := lines_reported st
            + (if co then 0 else int (length (reported_lines rx iv n raws)))\<rparr>,
      if co then so else so @ map (render_line fp rx iv ce) (reported_lines rx iv n raws))"
  by (induction raws arbitrary: n mc st so) (auto simp: Let_def render_line_def)

lemma process_lines_result:
  "process_lines rx fp iv co n raws mc so =
     (if co then mc + length (reported_lines rx iv n raws) else mc,
      if co then so else so @ map (render_line fp rx iv False) (reported_lines rx iv n raws))"
  by (induction raws arbitrary: n mc so) (auto simp: Let_def render_line_def colorize_def)

lemma reported_lines_iff:
  "(i, l) \<in> set (reported_lines rx iv n raws) \<longleftrightarrow>
     n \<le> i \<and> i < n + length raws \<and> l = rstrip_nl (raws ! (i - n))
       \<and> ((rx l \<noteq> None) \<noteq> iv)"
proof (induction raws arbitrary: n)
  case Nil
  then show ?case by simp
next
  case (Cons raw rest)
  show ?case
  proof (cases "i = n")
    case True
    then show ?thesis using Cons[of "Suc n"] by auto
  next
    case False
    then have "(raw # rest) ! (i - n) = rest ! (i - Suc n)" if "n \<le> i"
      using that by (simp add: nth_Cons')
    with False show ?thesis using Cons[of "Suc n"] by auto
  qed
qed

lemma reported_linenos:
  "fst ` set (reported_lines rx iv n raws) =
     {i. n \<le> i \<and> i < n + length raws \<and> ((rx (rstrip_nl (raws ! (i - n))) \<noteq> None) \<noteq> iv)}"
proof (rule set_eqI)
  fix i
  have "i \<in> fst ` set (reported_lines rx iv n raws)
          \<longleftrightarrow> (\<exists>l. (i, l) \<in> set (reported_lines rx iv n raws))"
    by force
  then show "i \<in> fst ` set (reported_lines rx iv n raws) \<longleftrightarrow>
     i \<in> {i. n \<le> i \<and> i < n + length raws
              \<and> ((rx (rstrip_nl (raws ! (i - n))) \<noteq> None) \<noteq> iv)}"
    by (simp add: reported_lines_iff)
qed

lemma reported_linenos_union:
  "fst ` set (reported_lines rx False n raws) \<union> fst ` set (reported_lines rx True n raws)
     = {n..<n + length raws}"
  unfolding reported_linenos by auto

lemma reported_linenos_disjoint:
  "fst ` set (reported_lines rx False n raws) \<inter> fst ` set (reported_lines rx True n raws) = {}"
  unfolding reported_linenos by auto


lemma log_record_error:
  "log_record lg ERROR ev w =
     w\<lparr>logged := logged w @ [(ERROR, ev)], err := err w @ [Console ERROR ev]\<rparr>"
  by (cases "logger_level lg") (simp_all add: log_record_def)

lemma log_record_debug_out [simp]: "out (log_record lg lv ev w) = out w"
  and log_record_trace [simp]: "trace (log_record lg lv ev w) = trace w"
  by (simp_all add: log_record_def)

lemma grep_file_binary:
  "\<not> is_probably_text_file fs fp 4096 \<Longrightarrow>
   grep_file fp rx iv co ce lg fs s =
     ((fst s)\<lparr>files_seen := files_seen (fst s) + 1,
              files_skipped_binary := files_skipped_binary (fst s) + 1\<rparr>,
      log_record lg DEBUG (SkippingBinary fp)
        ((snd s)\<lparr>trace := trace (snd s) @ [OpenBinary fp]\<rparr>))"
  by (simp add: grep_file_def)

lemma grep_file_open_error:
  "is_probably_text_file fs fp 4096 \<Longrightarrow> text_read (fs fp) = Inl (OSError msg) \<Longrightarrow>
   grep_file fp rx iv co ce lg fs s =
     ((fst s)\<lparr>files_seen := files_seen (fst s) + 1\<rparr>,
      log_record lg ERROR (CannotRead fp msg)
        ((snd s)\<lparr>trace := trace (snd s) @ [OpenBinary fp, OpenText fp]\<rparr>))"
  by (simp add: grep_file_def grep_try_def)

lemma grep_file_read_error:
  "is_probably_text_file fs fp 4096 \<Longrightarrow>
   text_read (fs fp) = Inr (Stream content (Some (OSError msg))) \<Longrightarrow>
   grep_file fp rx iv co ce lg fs s =
     ((fst s)\<lparr>files_seen := files_seen (fst s) + 1,
              files_read := files_read (fst s) + 1,
              lines_seen := lines_seen (fst s) + int (length (text_lines content)),
              lines_reported := lines_reported (fst s)
                + (if co then 0 else int (length (reported_lines rx iv 1 (text_lines content))))\<rparr>,
      log_record lg ERROR (CannotRead fp msg)
        ((snd s)\<lparr>trace := trace (snd s) @ [OpenBinary fp, OpenText fp],
                 out := (if co then out (snd s)
                         else out (snd s) @ map (render_line fp rx iv ce)
                                (reported_lines rx iv 1 (text_lines content)))\<rparr>))"
  by (simp add: grep_file_def grep_try_def scan_lines_result)

lemma grep_file_read_through:
  "is_probably_text_file fs fp 4096 \<Longrightarrow>
   text_read (fs fp) = Inr (Stream content None) \<Longrightarrow>
   grep_file fp rx iv co ce lg fs s =
     ((fst s)\<lparr>files_seen := files_seen (fst s) + 1,
              files_read := files_read (fst s) + 1,
              lines_seen := lines_seen (fst s) + int (length (text_lines content)),
              lines_reported := lines_reported (fst s)
                + (if co then 1 else int (length (reported_lines rx iv 1 (text_lines content))))\<rparr>,
      (snd s)\<lparr>trace := trace (snd s) @ [OpenBinary fp, OpenText fp],
               out := (if co then out (snd s) @
                              [render_count fp ce (length (reported_lines rx iv 1 (text_lines content)))]
                       else out (snd s) @ map (render_line fp rx iv ce)
                              (reported_lines rx iv 1 (text_lines content)))\<rparr>)"
  by (simp add: grep_file_def grep_try_def scan_lines_result render_count_def)

lemma read_through_cases:
  "read_through fs fp \<longleftrightarrow>
     is_probably_text_file fs fp 4096 \<and> (\<exists>content. text_read (fs fp) = Inr (Stream content None))"
  by (auto simp: read_through_def read_to_end_def split: sum.splits) (metis text_stream.collapse)

lemma not_read_through_cases:
  "\<not> read_through fs fp \<Longrightarrow>
     \<not> is_probably_text_file fs fp 4096
     \<or> (is_probably_text_file fs fp 4096 \<and> (\<exists>msg. text_read (fs fp) = Inl (OSError msg)))
     \<or> (is_probably_text_file fs fp 4096
          \<and> (\<exists>content msg. text_read (fs fp) = Inr (Stream content (Some (OSError msg)))))"
  apply (simp add: read_through_def read_to_end_def split: sum.splits)
   apply (metis oserror.exhaust)
  apply (metis oserror.exhaust text_stream.exhaust_sel option.exhaust)
  done

lemma read_to_end_cases:
  "read_to_end fs fp \<longleftrightarrow> (\<exists>content. text_read (fs fp) = Inr (Stream content None))"
  by (auto simp: read_to_end_def split: sum.splits) (metis text_stream.collapse)

lemma not_read_to_end_cases:
  "\<not> read_to_end fs fp \<Longrightarrow>
     (\<exists>msg. text_read (fs fp) = Inl (OSError msg))
     \<or> (\<exists>content msg. text_read (fs fp) = Inr (Stream content (Some (OSError msg))))"
  apply (simp add: read_to_end_def split: sum.splits)
   apply (metis oserror.exhaust)
  apply (metis oserror.exhaust text_stream.exhaust_sel option.exhaust)
  done

lemma process_file_open_error:
  "text_read (fs fp) = Inl (OSError msg) \<Longrightarrow> out (process_file rx fp iv co fs w) = out w"
  by (simp add: process_file_def)

lemma process_file_read_error:
  "text_read (fs fp) = Inr (Stream content (Some (OSError msg))) \<Longrightarrow>
   out (process_file rx fp iv co fs w) =
     (if co then out w
      else out w @ map (render_line fp rx iv False) (reported_lines rx iv 1 (text_lines content)))"
  by (simp add: process_file_def process_lines_result)

lemma process_file_read_to_end:
  "text_read (fs fp) = Inr (Stream content None) \<Longrightarrow>
   out (process_file rx fp iv co fs w) =
     (if co then out w @ [render_count fp False (length (reported_lines rx iv 1 (text_lines content)))]
      else out w @ map (render_line fp rx iv False) (reported_lines rx iv 1 (text_lines content)))"
  by (simp add: process_file_def process_lines_result render_count_def colorize_def)

lemma reported_lines_filter:
  "reported_lines rx iv n raws =
     filter (\<lambda>(i, l). if iv then rx l = None else rx l \<noteq> None)
       (zip [n..<n + length raws] (map rstrip_nl raws))"
proof (induction raws arbitrary: n)
  case Nil
  then show ?case by simp
next
  case (Cons raw rest)
  have "[n..<n + length (raw # rest)] = n # [Suc n..<Suc n + length rest]"
    using upt_conv_Cons[of n "n + length (raw # rest)"] by simp
  then show ?case
    using Cons[of "Suc n"] by auto
qed

lemma length_reported_lines:
  "length (reported_lines rx iv n raws) =
     length (filter (\<lambda>raw. if iv then rx (rstrip_nl raw) = None else rx (rstrip_nl raw) \<noteq> None) raws)"
  by (induction raws arbitrary: n) auto

lemma take_eq_iff_append: "take (length lit) s = lit \<longleftrightarrow> (\<exists>post. s = lit @ post)"
  by (metis append_eq_conv_conj append_take_drop_id)

lemma find_sub_Some_iff:
  "find_sub lit s i \<noteq> None \<longleftrightarrow> (\<exists>pre post. s = pre @ lit @ post)"
proof (induction s arbitrary: i)
  case Nil
  then show ?case by auto
next
  case (Cons c cs)
  show ?case
  proof (cases "take (length lit) (c # cs) = lit")
    case True
    then obtain post where "c # cs = [] @ lit @ post"
      using take_eq_iff_append[of lit "c # cs"] by auto
    then have "\<exists>pre post. c # cs = pre @ lit @ post"
      by blast
    with True show ?thesis by simp
  next
    case False
    have "(\<exists>pre post. c # cs = pre @ lit @ post) \<longleftrightarrow> (\<exists>pre post. cs = pre @ lit @ post)"
    proof
      assume "\<exists>pre post. c # cs = pre @ lit @ post"
      then obtain pre post where e: "c # cs = pre @ lit @ post"
        by blast
      have "pre \<noteq> []"
        using e False take_eq_iff_append[of lit "c # cs"] by auto
      then obtain pre' where "pre = c # pre'"
        using e by (cases pre) auto
      with e show "\<exists>pre post. cs = pre @ lit @ post"
        by auto
    next
      assume "\<exists>pre post. cs = pre @ lit @ post"
      then obtain pre post where "cs = pre @ lit @ post"
        by blast
      then have "c # cs = (c # pre) @ lit @ post"
        by simp
      then show "\<exists>pre post. c # cs = pre @ lit @ post"
        by blast
    qed
    with False Cons[of "Suc i"] show ?thesis by simp
  qed
qed

lemma literal_search_iff:
  "literal_search lit line \<noteq> None \<longleftrightarrow> (\<exists>pre post. line = pre @ lit @ post)"
  using find_sub_Some_iff[of lit line 0]
  by (auto simp: literal_search_def split: option.splits)

section \<open>Invert law\<close>

text \<open>
  Claim C1. For a fixed pattern and a file that is read through, the lines printed under
  the normal policy and those printed under the inverted policy are the renderings of two
  lists of numbered lines whose line numbers partition \<open>1..N\<close>, \<open>N\<close> the number of
  physical lines of the file: every line number is in one of the two, none in both.
\<close>

theorem invert_law:
  assumes "read_through fs fp"
  shows "out (snd (grep_file fp rx False False ce lg fs s)) =
           out (snd s) @ map (render_line fp rx False ce) (reported_lines rx False 1 (lines_of fs fp))
       \<and> out (snd (grep_file fp rx True False ce lg fs s)) =
           out (snd s) @ map (render_line fp rx True ce) (reported_lines rx True 1 (lines_of fs fp))
       \<and> fst ` set (reported_lines rx False 1 (lines_of fs fp))
           \<union> fst ` set (reported_lines rx True 1 (lines_of fs fp)) = {1..length (lines_of fs fp)}
       \<and> fst ` set (reported_lines rx False 1 (lines_of fs fp))
           \<inter> fst ` set (reported_lines rx True 1 (lines_of fs fp)) = {}"
proof -
  from assms obtain content where t: "is_probably_text_file fs fp 4096"
    and r: "text_read (fs fp) = Inr (Stream content None)"
    by (auto simp: read_through_cases)
  have l: "lines_of fs fp = text_lines content"
    by (simp add: lines_of_def r)
  have "{1..<1 + length (lines_of fs fp)} = {1..length (lines_of fs fp)}"
    by auto
  then show ?thesis
    using reported_linenos_union[of rx 1 "lines_of fs fp"]
      reported_linenos_disjoint[of rx 1 "lines_of fs fp"]
    by (simp add: grep_file_read_through[OF t r] l)
qed

theorem invert_law_witness:
  "read_through sample_fs ''a.txt''
   \<and> out (snd (grep_file ''a.txt'' (literal_search ''error'') False False False sample_logger
                 sample_fs (Stats0, io0))) = [''a.txt:2:error: boom'']
   \<and> out (snd (grep_file ''a.txt'' (literal_search ''error'') True False False sample_logger
                 sample_fs (Stats0, io0))) = [''a.txt:1:ok'', ''a.txt:3:ok'']
   \<and> fst ` set (reported_lines (literal_search ''error'') False 1 (lines_of sample_fs ''a.txt''))
        = {2}
   \<and> fst ` set (reported_lines (literal_search ''error'') True 1 (lines_of sample_fs ''a.txt''))
        = {1, 3}
   \<and> length (lines_of sample_fs ''a.txt'') = 3"
proof -
  have h: "read_through sample_fs ''a.txt''"
    by code_simp
  have a: "map (render_line ''a.txt'' (literal_search ''error'') False False)
             (reported_lines (literal_search ''error'') False 1 (lines_of sample_fs ''a.txt''))
           = [''a.txt:2:error: boom'']"
    by code_simp
  have b: "map (render_line ''a.txt'' (literal_search ''error'') True False)
             (reported_lines (literal_search ''error'') True 1 (lines_of sample_fs ''a.txt''))
           = [''a.txt:1:ok'', ''a.txt:3:ok'']"
    by code_simp
  have c: "reported_lines (literal_search ''error'') False 1 (lines_of sample_fs ''a.txt'')
           = [(2, ''error: boom'')]"
    by code_simp
  have d: "reported_lines (literal_search ''error'') True 1 (lines_of sample_fs ''a.txt'')
           = [(1, ''ok''), (3, ''ok'')]"
    by code_simp
  have e: "length (lines_of sample_fs ''a.txt'') = 3"
    by code_simp
  have o: "out (snd (Stats0, io0)) = []"
    by (simp add: io0_def)
  from invert_law[OF h, of "literal_search ''error''" False sample_logger "(Stats0, io0)"]
  show ?thesis
    unfolding a b o using h c d e by simp
qed

section \<open>Count law\<close>

text \<open>
  Claim C2. For a fixed pattern, file and policy, a scan in count mode prints one line for
  a file that is read through, and the number on it is the number of lines that the scan
  in lines mode prints for the same file (whatever the color setting, the logger and the
  state the two scans start from); for a file that is not read through it prints nothing.
  The same holds of \<open>process_file\<close>.
\<close>

theorem count_law:
  "out (snd (grep_file fp rx iv True ce lg fs s)) =
     out (snd s) @
       (if read_through fs fp
        then [render_count fp ce
                (length (out (snd (grep_file fp rx iv False ce' lg' fs s'))) - length (out (snd s')))]
        else [])
   \<and> out (process_file rx fp iv True fs w) =
     out w @
       (if read_to_end fs fp
        then [fp @ '':'' @ str_nat
                (length (out (process_file rx fp iv False fs w')) - length (out w'))]
        else [])"
proof
  show "out (snd (grep_file fp rx iv True ce lg fs s)) =
     out (snd s) @
       (if read_through fs fp
        then [render_count fp ce
                (length (out (snd (grep_file fp rx iv False ce' lg' fs s'))) - length (out (snd s')))]
        else [])"
  proof (cases "read_through fs fp")
    case True
    then obtain content where t: "is_probably_text_file fs fp 4096"
      and r: "text_read (fs fp) = Inr (Stream content None)"
      by (auto simp: read_through_cases)
    show ?thesis
      using True by (simp add: grep_file_read_through[OF t r])
  next
    case False
    from not_read_through_cases[OF False] show ?thesis
    proof (elim disjE conjE exE)
      assume "\<not> is_probably_text_file fs fp 4096"
      then show ?thesis
        using False by (simp add: grep_file_binary)
    next
      fix msg
      assume "is_probably_text_file fs fp 4096" "text_read (fs fp) = Inl (OSError msg)"
      then show ?thesis
        using False by (simp add: grep_file_open_error)
    next
      fix content msg
      assume "is_probably_text_file fs fp 4096"
        "text_read (fs fp) = Inr (Stream content (Some (OSError msg)))"
      then show ?thesis
        using False by (simp add: grep_file_read_error)
    qed
  qed
next
  show "out (process_file rx fp iv True fs w) =
     out w @
       (if read_to_end fs fp
        then [fp @ '':'' @ str_nat
                (length (out (process_file rx fp iv False fs w')) - length (out w'))]
        else [])"
  proof (cases "read_to_end fs fp")
    case True
    then obtain content where r: "text_read (fs fp) = Inr (Stream content None)"
      by (auto simp: read_to_end_cases)
    show ?thesis
      using True
      by (simp add: process_file_read_to_end[where fs=fs and fp=fp, OF r] render_count_def colorize_def)
  next
    case False
    from not_read_to_end_cases[OF False] show ?thesis
    proof (elim disjE exE)
      fix msg
      assume "text_read (fs fp) = Inl (OSError msg)"
      then show ?thesis
        using False by (simp add: process_file_open_error)
    next
      fix content msg
      assume "text_read (fs fp) = Inr (Stream content (Some (OSError msg)))"
      then show ?thesis
        using False by (simp add: process_file_read_error)
    qed
  qed
qed

theorem count_law_witness:
  "out (snd (grep_file ''a.txt'' (literal_search ''error'') False True False sample_logger
               sample_fs (Stats0, io0))) = [''a.txt:1'']
   \<and> out (process_file (literal_search ''error'') ''a.txt'' True True sample_fs io0)
        = [''a.txt:2'']"
proof -
  have h: "read_through sample_fs ''a.txt''" "read_to_end sample_fs ''a.txt''"
    by code_simp+
  have a: "length (out (snd (grep_file ''a.txt'' (literal_search ''error'') False False False
             sample_logger sample_fs (Stats0, io0)))) = 1"
    by code_simp
  have b: "length (out (process_file (literal_search ''error'') ''a.txt'' True False sample_fs io0))
             = 2"
    by code_simp
  have c: "render_count ''a.txt'' False 1 = ''a.txt:1''" "str_nat 2 = ''2''"
    by code_simp+
  have o: "out (snd (Stats0, io0)) = []" "out io0 = []"
    by (simp_all add: io0_def)
  from count_law[of "''a.txt''" "literal_search ''error''" False False sample_logger sample_fs
      "(Stats0, io0)" False sample_logger "(Stats0, io0)" io0 io0]
    count_law[of "''a.txt''" "literal_search ''error''" True False sample_logger sample_fs
      "(Stats0, io0)" False sample_logger "(Stats0, io0)" io0 io0]
  show ?thesis
    using h a b c o by simp
qed

section \<open>The line-interest test\<close>

text \<open>
  Claim C4. The loop keeps a line exactly when the search of the pattern over the line
  (the physical line without its trailing line feeds) succeeds, under the normal policy,
  and exactly when it fails, under the inverted one: in count mode the counter grows by
  the number of such lines, in lines mode the printed lines are those lines, in order,
  with their numbers; \<open>process_lines\<close> does the same. The program passes the whole line
  to \<open>search\<close> and adds no anchoring of its own: for a pattern without metacharacters the
  test succeeds exactly when the pattern occurs somewhere in the line.
\<close>

theorem line_interest:
  "fst (scan_lines fp rx iv True ce n raws mc st so) =
     mc + length (filter (\<lambda>raw. if iv then rx (rstrip_nl raw) = None
                                 else rx (rstrip_nl raw) \<noteq> None) raws)
   \<and> snd (snd (scan_lines fp rx iv False ce n raws mc st so)) =
     so @ map (render_line fp rx iv ce)
            (filter (\<lambda>(i, l). if iv then rx l = None else rx l \<noteq> None)
               (zip [n..<n + length raws] (map rstrip_nl raws)))
   \<and> fst (process_lines rx fp iv True n raws mc so) =
     mc + length (filter (\<lambda>raw. if iv then rx (rstrip_nl raw) = None
                                 else rx (rstrip_nl raw) \<noteq> None) raws)
   \<and> snd (process_lines rx fp iv False n raws mc so) =
     so @ map (\<lambda>(i, l). fp @ '':'' @ str_nat i @ '':'' @ l)
            (filter (\<lambda>(i, l). if iv then rx l = None else rx l \<noteq> None)
               (zip [n..<n + length raws] (map rstrip_nl raws)))
   \<and> ((literal_search lit line \<noteq> None) = (\<exists>pre post. line = pre @ lit @ post))"
proof -
  have r: "(\<lambda>nl. render_line fp rx iv False nl) = (\<lambda>(i, l). fp @ '':'' @ str_nat i @ '':'' @ l)"
    by (auto simp: render_line_def colorize_def fun_eq_iff)
  show ?thesis
    using literal_search_iff[of lit line]
    by (simp add: scan_lines_result process_lines_result length_reported_lines
        reported_lines_filter[symmetric] r)
qed

theorem line_interest_witness:
  "fst (scan_lines ''p'' (literal_search ''error'') True True False 1
          [''ok'' @ [LF], ''an error here'' @ [LF]] 0 Stats0 []) = 1
   \<and> snd (snd (scan_lines ''p'' (literal_search ''error'') False False False 1
          [''ok'' @ [LF], ''an error here'' @ [LF]] 0 Stats0 [])) = [''p:2:an error here'']
   \<and> literal_search ''error'' ''an error here'' \<noteq> None"
proof -
  have a: "length (filter (\<lambda>raw. if True then literal_search ''error'' (rstrip_nl raw) = None
                                 else literal_search ''error'' (rstrip_nl raw) \<noteq> None)
             [''ok'' @ [LF], ''an error here'' @ [LF]]) = 1"
    by code_simp
  have b: "map (render_line ''p'' (literal_search ''error'') False False)
            (filter (\<lambda>(i, l). if False then literal_search ''error'' l = None
                               else literal_search ''error'' l \<noteq> None)
               (zip [1..<1 + length [''ok'' @ [LF], ''an error here'' @ [LF]]]
                  (map rstrip_nl [''ok'' @ [LF], ''an error here'' @ [LF]])))
           = [''p:2:an error here'']"
    by code_simp
  have c: "\<exists>pre post. ''an error here'' = pre @ ''error'' @ post"
    by (rule exI[of _ "''an ''"], rule exI[of _ "'' here''"]) simp
  from line_interest[of "''p''" "literal_search ''error''" True False 1
      "[''ok'' @ [LF], ''an error here'' @ [LF]]" 0 Stats0 "[]" "''error''" "''an error here''"]
    line_interest[of "''p''" "literal_search ''error''" False False 1
      "[''ok'' @ [LF], ''an error here'' @ [LF]]" 0 Stats0 "[]" "''error''" "''an error here''"]
  show ?thesis
    unfolding a b using c by simp
qed

section \<open>The statistics of a run\<close>

lemma grep_file_counts:
  "files_seen (fst (grep_file fp rx iv co ce lg fs s)) = files_seen (fst s) + 1
   \<and> files_read (fst (grep_file fp rx iv co ce lg fs s)) =
       files_read (fst s) + (if opens fs fp then 1 else 0)
   \<and> files_skipped_binary (fst (grep_file fp rx iv co ce lg fs s)) =
       files_skipped_binary (fst s) + (if is_probably_text_file fs fp 4096 then 0 else 1)"
proof (cases "is_probably_text_file fs fp 4096")
  case False
  then show ?thesis
    by (simp add: grep_file_binary opens_def)
next
  case True
  show ?thesis
  proof (cases "text_read (fs fp)")
    case (Inl e)
    then obtain msg where "text_read (fs fp) = Inl (OSError msg)"
      by (cases e) simp
    then show ?thesis
      using True by (simp add: grep_file_open_error opens_def)
  next
    case (Inr ts)
    then obtain content fl where r: "text_read (fs fp) = Inr (Stream content fl)"
      by (cases ts) simp
    show ?thesis
    proof (cases fl)
      case None
      with r True show ?thesis
        by (simp add: grep_file_read_through opens_def)
    next
      case (Some e)
      then obtain msg where "fl = Some (OSError msg)"
        by (cases e) simp
      with r True show ?thesis
        by (simp add: grep_file_read_error opens_def)
    qed
  qed
qed

lemma grep_files_counts:
  "files_seen (fst (grep_files ps rx iv co ce lg fs s)) = files_seen (fst s) + int (length ps)
   \<and> files_read (fst (grep_files ps rx iv co ce lg fs s)) =
       files_read (fst s) + int (length (filter (opens fs) ps))
   \<and> files_skipped_binary (fst (grep_files ps rx iv co ce lg fs s)) =
       files_skipped_binary (fst s)
         + int (length (filter (\<lambda>p. \<not> is_probably_text_file fs p 4096) ps))"
proof (induction ps arbitrary: s)
  case Nil
  then show ?case by simp
next
  case (Cons p ps)
  show ?case
    using Cons[of "grep_file p rx iv co ce lg fs s"] grep_file_counts[of p rx iv co ce lg fs s]
    by simp
qed

lemma classes_of_files:
  "length ps = length (filter (opens fs) ps)
     + length (filter (\<lambda>p. \<not> is_probably_text_file fs p 4096) ps)
     + length (filter (open_fails fs) ps)"
  by (induction ps) (auto simp: opens_def open_fails_def)

text \<open>
  Claim C3, as the code has it. Over any list of files and from any statistics, a run adds
  to \<open>files_seen\<close> what it adds to \<open>files_read\<close> and to \<open>files_skipped_binary\<close>, plus the
  number of files that pass the classifier and then cannot be opened for reading; and
  \<open>files_read\<close> grows by the number of files that were opened, whether or not a later
  read of them fails.
\<close>

theorem stats_invariant:
  "files_seen (fst (grep_files ps rx iv co ce lg fs s)) - files_seen (fst s) =
     (files_read (fst (grep_files ps rx iv co ce lg fs s)) - files_read (fst s))
     + (files_skipped_binary (fst (grep_files ps rx iv co ce lg fs s))
          - files_skipped_binary (fst s))
     + int (length (filter (open_fails fs) ps))
   \<and> files_read (fst (grep_files ps rx iv co ce lg fs s)) - files_read (fst s) =
       int (length (filter (opens fs) ps))"
  using grep_files_counts[of ps rx iv co ce lg fs s] classes_of_files[of ps fs]
  by simp

theorem stats_invariant_witness:
  "files_seen (fst (grep_files [''a.txt'', ''b.bin'', ''c.txt'', ''d.txt'']
       (literal_search ''error'') False False False sample_logger sample_fs (Stats0, io0))) = 4
   \<and> files_read (fst (grep_files [''a.txt'', ''b.bin'', ''c.txt'', ''d.txt'']
       (literal_search ''error'') False False False sample_logger sample_fs (Stats0, io0))) = 2
   \<and> files_skipped_binary (fst (grep_files [''a.txt'', ''b.bin'', ''c.txt'', ''d.txt'']
       (literal_search ''error'') False False False sample_logger sample_fs (Stats0, io0))) = 1
   \<and> length (filter (open_fails sample_fs) [''a.txt'', ''b.bin'', ''c.txt'', ''d.txt'']) = 1"
proof -
  have a: "length (filter (open_fails sample_fs) [''a.txt'', ''b.bin'', ''c.txt'', ''d.txt'']) = 1"
    by code_simp
  have b: "length (filter (opens sample_fs) [''a.txt'', ''b.bin'', ''c.txt'', ''d.txt'']) = 2"
    by code_simp
  have c: "files_seen (fst (grep_files [''a.txt'', ''b.bin'', ''c.txt'', ''d.txt'']
       (literal_search ''error'') False False False sample_logger sample_fs (Stats0, io0))) = 4"
    by code_simp
  have z: "files_seen (fst (Stats0, io0)) = 0" "files_read (fst (Stats0, io0)) = 0"
    "files_skipped_binary (fst (Stats0, io0)) = 0"
    by (simp_all add: Stats0_def)
  from stats_invariant[of "[''a.txt'', ''b.bin'', ''c.txt'', ''d.txt'']"
      "literal_search ''error''" False False False sample_logger sample_fs "(Stats0, io0)"]
  show ?thesis
    unfolding a b c z by simp
qed

text \<open>
  The equation of the claim, with every file that hit an I/O error counted, fails on a
  file whose read fails after it was opened: the file is in \<open>files_read\<close> and in the
  errors.
\<close>

theorem stats_invariant_counterexample:
  "\<not> (files_seen (fst (grep_file ''d.txt'' (literal_search ''error'') False False False
          sample_logger sample_fs (Stats0, io0))) =
       files_read (fst (grep_file ''d.txt'' (literal_search ''error'') False False False
          sample_logger sample_fs (Stats0, io0)))
       + files_skipped_binary (fst (grep_file ''d.txt'' (literal_search ''error'') False False
          False sample_logger sample_fs (Stats0, io0)))
       + int (io_errors (snd (grep_file ''d.txt'' (literal_search ''error'') False False False
          sample_logger sample_fs (Stats0, io0)))))"
  by code_simp

section \<open>Binary exclusion\<close>

lemma nul_in_sample:
  "(0 :: byte) \<in> set (take k bs) \<longleftrightarrow> (\<exists>i. i < k \<and> i < length bs \<and> bs ! i = 0)"
proof
  assume "(0 :: byte) \<in> set (take k bs)"
  then obtain i where "i < length (take k bs)" "take k bs ! i = 0"
    by (auto simp: in_set_conv_nth)
  then show "\<exists>i. i < k \<and> i < length bs \<and> bs ! i = 0"
    by (intro exI[of _ i]) auto
next
  assume "\<exists>i. i < k \<and> i < length bs \<and> bs ! i = 0"
  then obtain i where i: "i < k" "i < length bs" "bs ! i = 0"
    by blast
  then have "i < length (take k bs)" "take k bs ! i = 0"
    by auto
  then show "(0 :: byte) \<in> set (take k bs)"
    by (metis nth_mem)
qed

text \<open>
  Claim C5. The classifier answers false exactly when the binary open or read raises, or
  a NUL byte stands among the first 4096 bytes of the file (fewer when the file is
  shorter). A file it answers false for is not opened in text mode (the scan records the
  binary open only), prints nothing, adds one to \<open>files_skipped_binary\<close> and leaves
  \<open>files_read\<close> and the line counters as they were.
\<close>

theorem binary_exclusion:
  "((\<not> is_probably_text_file fs fp 4096) =
      ((\<exists>e. bin_read (fs fp) = Inl e)
       \<or> (\<exists>bs. bin_read (fs fp) = Inr bs \<and> (\<exists>i. i < 4096 \<and> i < length bs \<and> bs ! i = 0))))
   \<and> (\<not> is_probably_text_file fs fp 4096 \<longrightarrow>
        files_skipped_binary (fst (grep_file fp rx iv co ce lg fs s))
          = files_skipped_binary (fst s) + 1
        \<and> files_read (fst (grep_file fp rx iv co ce lg fs s)) = files_read (fst s)
        \<and> lines_seen (fst (grep_file fp rx iv co ce lg fs s)) = lines_seen (fst s)
        \<and> lines_reported (fst (grep_file fp rx iv co ce lg fs s)) = lines_reported (fst s)
        \<and> out (snd (grep_file fp rx iv co ce lg fs s)) = out (snd s)
        \<and> trace (snd (grep_file fp rx iv co ce lg fs s)) = trace (snd s) @ [OpenBinary fp])"
proof
  show "(\<not> is_probably_text_file fs fp 4096) =
      ((\<exists>e. bin_read (fs fp) = Inl e)
       \<or> (\<exists>bs. bin_read (fs fp) = Inr bs \<and> (\<exists>i. i < 4096 \<and> i < length bs \<and> bs ! i = 0)))"
  proof (cases "bin_read (fs fp)")
    case (Inl e)
    then show ?thesis
      by (simp add: is_probably_text_file_def)
  next
    case (Inr bs)
    then show ?thesis
      using nul_in_sample[of 4096 bs] by (auto simp: is_probably_text_file_def)
  qed
next
  show "\<not> is_probably_text_file fs fp 4096 \<longrightarrow>
        files_skipped_binary (fst (grep_file fp rx iv co ce lg fs s))
          = files_skipped_binary (fst s) + 1
        \<and> files_read (fst (grep_file fp rx iv co ce lg fs s)) = files_read (fst s)
        \<and> lines_seen (fst (grep_file fp rx iv co ce lg fs s)) = lines_seen (fst s)
        \<and> lines_reported (fst (grep_file fp rx iv co ce lg fs s)) = lines_reported (fst s)
        \<and> out (snd (grep_file fp rx iv co ce lg fs s)) = out (snd s)
        \<and> trace (snd (grep_file fp rx iv co ce lg fs s)) = trace (snd s) @ [OpenBinary fp]"
    by (simp add: grep_file_binary)
qed

theorem binary_exclusion_witness:
  "\<not> is_probably_text_file sample_fs ''b.bin'' 4096
   \<and> files_skipped_binary (fst (grep_file ''b.bin'' (literal_search ''error'') False False False
        sample_logger sample_fs (Stats0, io0))) = 1
   \<and> files_read (fst (grep_file ''b.bin'' (literal_search ''error'') False False False
        sample_logger sample_fs (Stats0, io0))) = 0
   \<and> out (snd (grep_file ''b.bin'' (literal_search ''error'') False False False
        sample_logger sample_fs (Stats0, io0))) = []
   \<and> trace (snd (grep_file ''b.bin'' (literal_search ''error'') False False False
        sample_logger sample_fs (Stats0, io0))) = [OpenBinary ''b.bin'']"
proof -
  have h: "\<not> is_probably_text_file sample_fs ''b.bin'' 4096"
    by code_simp
  have z: "files_skipped_binary (fst (Stats0, io0)) = 0" "files_read (fst (Stats0, io0)) = 0"
    "out (snd (Stats0, io0)) = []" "trace (snd (Stats0, io0)) = []"
    by (simp_all add: Stats0_def io0_def)
  from binary_exclusion[of sample_fs "''b.bin''" "literal_search ''error''" False False False
      sample_logger "(Stats0, io0)"]
  show ?thesis
    using h z by simp
qed

section \<open>The count line\<close>

text \<open>
  Claim C6, as the code has it. In count mode, for a file that passes the classifier and
  is read to its end, the scan prints exactly one line, \<open>path:count\<close>, after every line of
  the file was seen; the count is the number of lines that pass the test (0 when none
  does), and \<open>lines_reported\<close> grows by exactly one.
\<close>

theorem count_line_emitted:
  assumes "read_through fs fp"
  shows "out (snd (grep_file fp rx iv True ce lg fs s)) =
           out (snd s) @
             [render_count fp ce
                (length (filter (\<lambda>raw. if iv then rx (rstrip_nl raw) = None
                                        else rx (rstrip_nl raw) \<noteq> None) (lines_of fs fp)))]
       \<and> lines_reported (fst (grep_file fp rx iv True ce lg fs s)) = lines_reported (fst s) + 1
       \<and> lines_seen (fst (grep_file fp rx iv True ce lg fs s)) =
           lines_seen (fst s) + int (length (lines_of fs fp))"
proof -
  from assms obtain content where t: "is_probably_text_file fs fp 4096"
    and r: "text_read (fs fp) = Inr (Stream content None)"
    by (auto simp: read_through_cases)
  have l: "lines_of fs fp = text_lines content"
    by (simp add: lines_of_def r)
  show ?thesis
    by (simp add: grep_file_read_through[OF t r] l length_reported_lines)
qed

theorem count_line_emitted_witness:
  "read_through sample_fs ''a.txt''
   \<and> out (snd (grep_file ''a.txt'' (literal_search ''zzz'') False True False sample_logger
        sample_fs (Stats0, io0))) = [''a.txt:0'']
   \<and> lines_reported (fst (grep_file ''a.txt'' (literal_search ''zzz'') False True False
        sample_logger sample_fs (Stats0, io0))) = 1"
proof -
  have h: "read_through sample_fs ''a.txt''"
    by code_simp
  have a: "render_count ''a.txt'' False
             (length (filter (\<lambda>raw. if False then literal_search ''zzz'' (rstrip_nl raw) = None
                                     else literal_search ''zzz'' (rstrip_nl raw) \<noteq> None)
                (lines_of sample_fs ''a.txt''))) = ''a.txt:0''"
    by code_simp
  have z: "out (snd (Stats0, io0)) = []" "lines_reported (fst (Stats0, io0)) = 0"
    by (simp_all add: Stats0_def io0_def)
  from count_line_emitted[OF h, of "literal_search ''zzz''" False False sample_logger
      "(Stats0, io0)"]
  show ?thesis
    unfolding a z using h by simp
qed

text \<open>
  A file that passes the classifier and then cannot be opened gets no count line, and
  \<open>lines_reported\<close> stays as it was.
\<close>

theorem count_line_emitted_counterexample:
  "is_probably_text_file sample_fs ''c.txt'' 4096
   \<and> out (snd (grep_file ''c.txt'' (literal_search ''error'') False True False sample_logger
        sample_fs (Stats0, io0))) = []
   \<and> lines_reported (fst (grep_file ''c.txt'' (literal_search ''error'') False True False
        sample_logger sample_fs (Stats0, io0))) = 0"
  by code_simp

section \<open>A file that cannot be opened\<close>

text \<open>
  Claim C8. For a file that passes the classifier and whose open for reading then raises,
  the scan logs one error record naming that file (echoed on standard error), prints
  nothing, counts the file in \<open>files_seen\<close> only, and returns; the loop of \<open>main\<close> goes on
  with the files that follow, from the state that scan returned.
\<close>

theorem open_failure_isolated:
  assumes "is_probably_text_file fs fp 4096" and "text_read (fs fp) = Inl (OSError msg)"
  shows "fst (grep_file fp rx iv co ce lg fs s) = (fst s)\<lparr>files_seen := files_seen (fst s) + 1\<rparr>
       \<and> files_read (fst (grep_file fp rx iv co ce lg fs s)) = files_read (fst s)
       \<and> logged (snd (grep_file fp rx iv co ce lg fs s)) =
           logged (snd s) @ [(ERROR, CannotRead fp msg)]
       \<and> err (snd (grep_file fp rx iv co ce lg fs s)) =
           err (snd s) @ [Console ERROR (CannotRead fp msg)]
       \<and> out (snd (grep_file fp rx iv co ce lg fs s)) = out (snd s)
       \<and> trace (snd (grep_file fp rx iv co ce lg fs s)) =
           trace (snd s) @ [OpenBinary fp, OpenText fp]
       \<and> grep_files (fp # rest) rx iv co ce lg fs s =
           grep_files rest rx iv co ce lg fs
             ((fst s)\<lparr>files_seen := files_seen (fst s) + 1\<rparr>,
              (snd s)\<lparr>trace := trace (snd s) @ [OpenBinary fp, OpenText fp],
                       logged := logged (snd s) @ [(ERROR, CannotRead fp msg)],
                       err := err (snd s) @ [Console ERROR (CannotRead fp msg)]\<rparr>)"
  by (simp add: grep_file_open_error[OF assms] log_record_error)

theorem open_failure_isolated_witness:
  "is_probably_text_file sample_fs ''c.txt'' 4096
   \<and> text_read (sample_fs ''c.txt'') = Inl (OSError ''Permission denied'')
   \<and> files_read (fst (grep_file ''c.txt'' (literal_search ''error'') False False False
        sample_logger sample_fs (Stats0, io0))) = 0
   \<and> logged (snd (grep_file ''c.txt'' (literal_search ''error'') False False False
        sample_logger sample_fs (Stats0, io0))) =
        [(ERROR, CannotRead ''c.txt'' ''Permission denied'')]
   \<and> out (snd (grep_files [''c.txt'', ''a.txt''] (literal_search ''error'') False False False
        sample_logger sample_fs (Stats0, io0))) = [''a.txt:2:error: boom'']"
proof -
  have h: "is_probably_text_file sample_fs ''c.txt'' 4096"
    "text_read (sample_fs ''c.txt'') = Inl (OSError ''Permission denied'')"
    by code_simp+
  have a: "out (snd (grep_files [''c.txt'', ''a.txt''] (literal_search ''error'') False False
        False sample_logger sample_fs (Stats0, io0))) = [''a.txt:2:error: boom'']"
    by code_simp
  from open_failure_isolated[OF h, of "literal_search ''error''" False False False sample_logger
      "(Stats0, io0)" "[]"]
  show ?thesis
    using h a by (simp add: Stats0_def io0_def)
qed

section \<open>The highlighter\<close>

text \<open>
  Claim C9. With highlighting disabled, or when the pattern does not match, the
  highlighter returns the line as it is. When it highlights, the result is the line with
  \<open>ANSI_YELLOW\<close> inserted before the span of the first match and \<open>ANSI_RESET\<close> after it:
  the three pieces around the two markers, put together again without them, are the
  line. The span is the one \<open>search\<close> returns, whose start is not after its end.
\<close>

theorem highlight_preserves_content:
  "(\<not> enabled \<or> rx line = None \<longrightarrow> highlight_regex_first line rx enabled = line)
   \<and> (enabled \<and> rx line = Some (a, b) \<and> a \<le> b \<longrightarrow>
        highlight_regex_first line rx enabled =
          take a line @ ANSI_YELLOW @ drop a (take b line) @ ANSI_RESET @ drop b line
        \<and> take a line @ drop a (take b line) @ drop b line = line)"
proof (intro conjI impI)
  assume "\<not> enabled \<or> rx line = None"
  then show "highlight_regex_first line rx enabled = line"
    by (auto simp: highlight_regex_first_def)
next
  assume h: "enabled \<and> rx line = Some (a, b) \<and> a \<le> b"
  then show "highlight_regex_first line rx enabled =
          take a line @ ANSI_YELLOW @ drop a (take b line) @ ANSI_RESET @ drop b line"
    by (simp add: highlight_regex_first_def)
  from h have "take a line = take a (take b line)"
    by (simp add: min_absorb1)
  then have "take a line @ drop a (take b line) = take b line"
    by (metis append_take_drop_id)
  then show "take a line @ drop a (take b line) @ drop b line = line"
    by (metis append_assoc append_take_drop_id)
qed

theorem highlight_preserves_content_witness:
  "literal_search ''error'' ''an error here'' = Some (3, 8)
   \<and> highlight_regex_first ''an error here'' (literal_search ''error'') True =
        ''an '' @ ANSI_YELLOW @ ''error'' @ ANSI_RESET @ '' here''
   \<and> highlight_regex_first ''ok'' (literal_search ''error'') True = ''ok''
   \<and> highlight_regex_first ''an error here'' (literal_search ''error'') False = ''an error here''"
proof -
  have h: "literal_search ''error'' ''an error here'' = Some (3, 8)"
    "literal_search ''error'' ''ok'' = None"
    by code_simp+
  from highlight_preserves_content[of True "literal_search ''error''" "''an error here''" 3 8]
    highlight_preserves_content[of True "literal_search ''error''" "''ok''" 0 0]
    highlight_preserves_content[of False "literal_search ''error''" "''an error here''" 0 0]
  show ?thesis
    using h by simp
qed

section \<open>Line preprocessing\<close>

lemma CR_neq_LF [simp]: "CR \<noteq> LF" "LF \<noteq> CR"
  by (simp_all add: CR_def LF_def)

lemma takeWhile_eq_replicate:
  "takeWhile (\<lambda>c. c = x) xs = replicate (length (takeWhile (\<lambda>c. c = x) xs)) x"
  by (induction xs) auto

lemma rstrip_nl_decomp:
  "raw = rstrip_nl raw @ replicate (length (takeWhile (\<lambda>c. c = LF) (rev raw))) LF"
proof -
  have "rev raw = takeWhile (\<lambda>c. c = LF) (rev raw) @ dropWhile (\<lambda>c. c = LF) (rev raw)"
    by simp
  then have "raw = rev (dropWhile (\<lambda>c. c = LF) (rev raw)) @ rev (takeWhile (\<lambda>c. c = LF) (rev raw))"
    by (metis rev_append rev_rev_ident)
  moreover have "rev (takeWhile (\<lambda>c. c = LF) (rev raw))
                   = replicate (length (takeWhile (\<lambda>c. c = LF) (rev raw))) LF"
    by (metis takeWhile_eq_replicate rev_replicate)
  ultimately show ?thesis
    by (simp add: rstrip_nl_def)
qed

lemma rstrip_nl_no_trailing_LF: "rstrip_nl raw = [] \<or> last (rstrip_nl raw) \<noteq> LF"
proof (cases "dropWhile (\<lambda>c. c = LF) (rev raw)")
  case Nil
  then show ?thesis by (simp add: rstrip_nl_def)
next
  case (Cons y ys)
  then have "y \<noteq> LF"
    using hd_dropWhile[of "\<lambda>c. c = LF" "rev raw"] by auto
  with Cons show ?thesis by (simp add: rstrip_nl_def)
qed

lemma rstrip_nl_keeps_others:
  "filter (\<lambda>c. c \<noteq> LF) (rstrip_nl raw) = filter (\<lambda>c. c \<noteq> LF) raw"
proof -
  have "filter (\<lambda>c. c \<noteq> LF) raw =
          filter (\<lambda>c. c \<noteq> LF)
            (rstrip_nl raw @ replicate (length (takeWhile (\<lambda>c. c = LF) (rev raw))) LF)"
    using rstrip_nl_decomp[of raw] by simp
  then show ?thesis by simp
qed

lemma translate_newlines_no_CR: "CR \<notin> set (translate_newlines s)"
  by (induction s rule: translate_newlines.induct) auto

lemma iter_lines_from_chars:
  "l \<in> set (iter_lines_from acc s) \<Longrightarrow> set l \<subseteq> set acc \<union> set s"
proof (induction s arbitrary: acc)
  case Nil
  then show ?case by (auto split: if_splits)
next
  case (Cons c cs)
  show ?case
  proof (cases "c = LF")
    case True
    with Cons.prems have "l = acc @ [LF] \<or> l \<in> set (iter_lines_from [] cs)"
      by simp
    then show ?thesis
      using Cons.IH[of "[]"] True by auto
  next
    case False
    with Cons.prems have "l \<in> set (iter_lines_from (acc @ [c]) cs)"
      by simp
    then show ?thesis
      using Cons.IH[of "acc @ [c]"] by auto
  qed
qed

lemma text_lines_no_CR: "raw \<in> set (text_lines content) \<Longrightarrow> CR \<notin> set raw"
  using iter_lines_from_chars[of raw "[]" "translate_newlines content"]
    translate_newlines_no_CR[of content]
  by (auto simp: text_lines_def iter_lines_def)

lemma rstrip_nl_subset: "set (rstrip_nl raw) \<subseteq> set raw"
  by (metis rstrip_nl_decomp set_append Un_upper1)

text \<open>
  Claim C10, as the code has it. The loops cut from each line that the text-mode handle
  yields its trailing line feeds and nothing else (a carriage return in the yielded line
  would stay), and the string so obtained is the one they give to \<open>search\<close> and the one
  they print after \<open>path:lineno:\<close>. The handle is opened with the default newline
  handling, which has already turned \<open>\r\n\<close> and \<open>\r\<close> into \<open>\n\<close>: no line it yields
  holds a carriage return.
\<close>

theorem line_preprocessing:
  "(\<exists>k. raw = rstrip_nl raw @ replicate k LF)
   \<and> (rstrip_nl raw = [] \<or> last (rstrip_nl raw) \<noteq> LF)
   \<and> filter (\<lambda>c. c \<noteq> LF) (rstrip_nl raw) = filter (\<lambda>c. c \<noteq> LF) raw
   \<and> snd (snd (scan_lines fp rx iv False False n raws mc st so)) =
       so @ map (\<lambda>(i, l). fp @ '':'' @ str_nat i @ '':'' @ l)
              (filter (\<lambda>(i, l). if iv then rx l = None else rx l \<noteq> None)
                 (zip [n..<n + length raws] (map rstrip_nl raws)))
   \<and> snd (process_lines rx fp iv False n raws mc so) =
       so @ map (\<lambda>(i, l). fp @ '':'' @ str_nat i @ '':'' @ l)
              (filter (\<lambda>(i, l). if iv then rx l = None else rx l \<noteq> None)
                 (zip [n..<n + length raws] (map rstrip_nl raws)))
   \<and> (\<forall>l \<in> set (lines_of fs fp). CR \<notin> set l \<and> CR \<notin> set (rstrip_nl l))"
proof -
  have r: "(\<lambda>nl. render_line fp rx iv False nl) = (\<lambda>(i, l). fp @ '':'' @ str_nat i @ '':'' @ l)"
    by (auto simp: render_line_def colorize_def fun_eq_iff)
  have c: "\<forall>l \<in> set (lines_of fs fp). CR \<notin> set l \<and> CR \<notin> set (rstrip_nl l)"
    using text_lines_no_CR rstrip_nl_subset
    by (fastforce simp: lines_of_def split: sum.splits)
  have d: "\<exists>k. raw = rstrip_nl raw @ replicate k LF"
    using rstrip_nl_decomp[of raw] by blast
  show ?thesis
    using c d rstrip_nl_no_trailing_LF[of raw] rstrip_nl_keeps_others[of raw]
    by (simp add: scan_lines_result process_lines_result reported_lines_filter[symmetric] r)
qed

theorem line_preprocessing_witness:
  "rstrip_nl (''ab'' @ [CR, LF, LF]) = ''ab'' @ [CR]
   \<and> lines_of sample_fs ''e.txt'' = [''ab'' @ [LF]]
   \<and> CR \<notin> set (rstrip_nl (''ab'' @ [LF]))"
proof -
  have a: "rstrip_nl (''ab'' @ [CR, LF, LF]) = ''ab'' @ [CR]"
    by code_simp
  have b: "lines_of sample_fs ''e.txt'' = [''ab'' @ [LF]]"
    by code_simp
  from line_preprocessing[where fs = sample_fs and fp = "''e.txt''"]
  have "\<forall>l \<in> set (lines_of sample_fs ''e.txt''). CR \<notin> set l \<and> CR \<notin> set (rstrip_nl l)"
    by blast
  then show ?thesis
    using a b by simp
qed

text \<open>
  A file with a CRLF line ending: the line matched and printed is \<open>ab\<close>, with no carriage
  return, under both variants.
\<close>

theorem line_preprocessing_counterexample:
  "text_read (sample_fs ''e.txt'') = Inr (Stream (''ab'' @ [CR, LF]) None)
   \<and> out (snd (grep_file ''e.txt'' (literal_search ''ab'') False False False sample_logger
        sample_fs (Stats0, io0))) = [''e.txt:1:ab'']
   \<and> out (process_file (literal_search ''ab'') ''e.txt'' False False sample_fs io0)
        = [''e.txt:1:ab'']
   \<and> out (snd (grep_file ''e.txt'' (literal_search (''b'' @ [CR])) False False False
        sample_logger sample_fs (Stats0, io0))) = []"
  by code_simp

section \<open>A pattern that does not compile\<close>

lemma log_record_info:
  "logger_level lg = DEBUG \<or> logger_level lg = INFO \<Longrightarrow>
   log_record lg INFO ev w = w\<lparr>logged := logged w @ [(INFO, ev)]\<rparr>"
  by (auto simp: log_record_def)

lemma setup_logging_ok:
  "logs_mkdir e = None \<Longrightarrow> log_open e = None \<Longrightarrow>
   setup_logging dbg e io0 =
     (Inr (\<lparr>logger_level = (if dbg then DEBUG else INFO)\<rparr>,
           cwd e @ ''/logs'' @ ''/log_'' @ now_ts e @ ''.txt''),
      \<lparr>out = [], err = [],
       logged = [(INFO, LogStarted (cwd e @ ''/logs'' @ ''/log_'' @ now_ts e @ ''.txt'')),
                 (INFO, LogCwd (cwd e))],
       trace = [MkLogDir (cwd e @ ''/logs''),
                OpenLog (cwd e @ ''/logs'' @ ''/log_'' @ now_ts e @ ''.txt'')]\<rparr>)"
  by (simp add: setup_logging_def make_log_path_def io0_def log_record_info)

lemma main_try_invalid:
  "re_compile e (regex a) (ignore_case a) = Inl ex \<Longrightarrow>
   main_try e a lg ce w =
     (2, Stats0,
      w\<lparr>logged := logged w @ [(ERROR, InvalidRegex ex)],
        err := err w @ [Console ERROR (InvalidRegex ex),
                        Printed (colorize (''Invalid regex: '' @ ex) ANSI_RED ce)]\<rparr>)"
  by (simp add: main_try_def log_record_error eprint_def)

lemma main_invalid:
  assumes "re_compile e (regex a) (ignore_case a) = Inl ex"
    and "logs_mkdir e = None" and "log_open e = None"
  shows "main e a =
     (Exit 2, Stats0\<lparr>elapsed_s := elapsed e\<rparr>,
      \<lparr>out = [],
       err = [Console ERROR (InvalidRegex ex),
              Printed (colorize (''Invalid regex: '' @ ex) ANSI_RED
                 (case color a of Always \<Rightarrow> True | Never \<Rightarrow> False | Auto \<Rightarrow> stdout_isatty e)),
              Printed (colorize (''Log written to: '' @ cwd e @ ''/logs'' @ ''/log_'' @ now_ts e
                                   @ ''.txt'') ANSI_CYAN
                 (case color a of Always \<Rightarrow> True | Never \<Rightarrow> False | Auto \<Rightarrow> stdout_isatty e))],
       logged = [(INFO, LogStarted (cwd e @ ''/logs'' @ ''/log_'' @ now_ts e @ ''.txt'')),
                 (INFO, LogCwd (cwd e)),
                 (INFO, LogArgs (join_space (argv e))),
                 (INFO, LogOptions (recursive a) (ignore_case a) (invert a) (count a) (color a)
                          (debug a)),
                 (ERROR, InvalidRegex ex),
                 (INFO, Performance (Stats0\<lparr>elapsed_s := elapsed e\<rparr>))],
       trace = [MkLogDir (cwd e @ ''/logs''),
                OpenLog (cwd e @ ''/logs'' @ ''/log_'' @ now_ts e @ ''.txt'')]\<rparr>)"
  using assms
  by (simp add: main_def setup_logging_ok main_try_invalid log_record_info eprint_def Let_def)

text \<open>
  Claim C7, as the code has it. When the pattern does not compile and the log could be set
  up, the run ends with exit code 2 before any input is looked at: the error is logged and
  printed on standard error first of all that standard error gets, nothing is printed on
  standard output, the statistics are all zero, the only files the run created or opened
  are the \<open>logs\<close> directory and the log file (both before the pattern was compiled), and
  the result is the same whatever the inputs are on disk.
\<close>

theorem invalid_regex_fails_fast:
  assumes "re_compile e (regex a) (ignore_case a) = Inl ex"
    and "logs_mkdir e = None" and "log_open e = None"
  shows "fst (main e a) = Exit 2
       \<and> fst (snd (main e a)) = Stats0\<lparr>elapsed_s := elapsed e\<rparr>
       \<and> out (snd (snd (main e a))) = []
       \<and> trace (snd (snd (main e a))) =
           [MkLogDir (cwd e @ ''/logs''),
            OpenLog (cwd e @ ''/logs'' @ ''/log_'' @ now_ts e @ ''.txt'')]
       \<and> take 2 (err (snd (snd (main e a)))) =
           [Console ERROR (InvalidRegex ex),
            Printed (colorize (''Invalid regex: '' @ ex) ANSI_RED
               (case color a of Always \<Rightarrow> True | Never \<Rightarrow> False | Auto \<Rightarrow> stdout_isatty e))]
       \<and> (ERROR, InvalidRegex ex) \<in> set (logged (snd (snd (main e a))))
       \<and> main (e\<lparr>path_exists := pe, is_file := isf, is_dir := isd, rglob := rg, glob := gl,
                  files := fs\<rparr>) a = main e a"
proof -
  have "re_compile (e\<lparr>path_exists := pe, is_file := isf, is_dir := isd, rglob := rg, glob := gl,
                      files := fs\<rparr>) (regex a) (ignore_case a) = Inl ex"
    "logs_mkdir (e\<lparr>path_exists := pe, is_file := isf, is_dir := isd, rglob := rg, glob := gl,
                   files := fs\<rparr>) = None"
    "log_open (e\<lparr>path_exists := pe, is_file := isf, is_dir := isd, rglob := rg, glob := gl,
                 files := fs\<rparr>) = None"
    using assms by simp_all
  from main_invalid[OF this] main_invalid[OF assms] show ?thesis
    by (cases "color a") simp_all
qed

theorem invalid_regex_fails_fast_witness:
  "re_compile sample_env (regex sample_args) (ignore_case sample_args)
     = Inl ''missing ), unterminated subpattern at position 0''
   \<and> logs_mkdir sample_env = None \<and> log_open sample_env = None
   \<and> fst (main sample_env sample_args) = Exit 2
   \<and> out (snd (snd (main sample_env sample_args))) = []
   \<and> trace (snd (snd (main sample_env sample_args))) =
       [MkLogDir ''/w/logs'', OpenLog ''/w/logs/log_2025-01-01_00-00-00.txt'']"
proof -
  have h: "re_compile sample_env (regex sample_args) (ignore_case sample_args)
             = Inl ''missing ), unterminated subpattern at position 0''"
    "logs_mkdir sample_env = None" "log_open sample_env = None"
    by (simp_all add: sample_env_def sample_args_def)
  have c: "cwd sample_env = ''/w''" "now_ts sample_env = ''2025-01-01_00-00-00''"
    by (simp_all add: sample_env_def)
  from invalid_regex_fails_fast[OF h] show ?thesis
    using h c by simp
qed

text \<open>
  The run is not free of file I/O: before the pattern is compiled the \<open>logs\<close> directory
  and the log file are created. And when the directory cannot be created, the error of
  \<open>mkdir\<close> leaves \<open>main\<close> uncaught, whatever the pattern: the run does not end with exit
  code 2.
\<close>

theorem invalid_regex_fails_fast_counterexample:
  "re_compile sample_env (regex sample_args) (ignore_case sample_args)
     = Inl ''missing ), unterminated subpattern at position 0''
   \<and> trace (snd (snd (main sample_env sample_args))) =
       [MkLogDir ''/w/logs'', OpenLog ''/w/logs/log_2025-01-01_00-00-00.txt'']
   \<and> fst (main (sample_env\<lparr>logs_mkdir := Some (OSError ''Read-only file system'')\<rparr>) sample_args)
       = Uncaught (OSError ''Read-only file system'')"
proof -
  have a: "re_compile sample_env (regex sample_args) (ignore_case sample_args)
             = Inl ''missing ), unterminated subpattern at position 0''"
    by (simp add: sample_env_def sample_args_def)
  have b: "trace (snd (snd (main sample_env sample_args))) =
             [MkLogDir ''/w/logs'', OpenLog ''/w/logs/log_2025-01-01_00-00-00.txt'']"
    by code_simp
  have c: "fst (main (sample_env\<lparr>logs_mkdir := Some (OSError ''Read-only file system'')\<rparr>)
                  sample_args) = Uncaught (OSError ''Read-only file system'')"
    by code_simp
  show ?thesis
    by (intro conjI a b c)
qed

end
